theory Spec2Isabelle
  imports Main
begin

section \<open>MiniLang compiler: values, AST nodes and three-address code\<close>

text \<open>
  Source text is a list of characters read as ASCII. A token value is a string, an integer,
  a float or None, as the scanner stores it; floats stay abstract (type \<open>'f\<close>): the
  scanner's conversion and the printing of a float are parameters of the functions that use them.
  AST nodes are typed the way the parser builds them: names and operator texts are strings,
  branches and bodies are statement lists.
\<close>

datatype 'f tok_value = StrV string | IntV int | FloatV 'f | NoneV

datatype 'f expr =
    BinOpNode "'f expr" string "'f expr"
  | UnaryOpNode string "'f expr"
  | VarNode string
  | NumNode "'f tok_value"
  | BooleanNode bool

datatype 'f stmt =
    AssignmentNode string "'f expr"
  | IfNode "'f expr" "'f stmt list" "'f stmt list"
  | WhileNode "'f expr" "'f stmt list"
  | ReadNode string
  | WriteNode "'f expr"

definition digit_char :: "nat \<Rightarrow> char" where
  "digit_char d = char_of (48 + d)"

function str_nat :: "nat \<Rightarrow> string" where
  "str_nat n = (if n < 10 then [digit_char n] else str_nat (n div 10) @ [digit_char (n mod 10)])"
  by pat_completeness auto
termination
  by (relation "measure (\<lambda>n. n)") auto

declare str_nat.simps [simp del]

definition str_int :: "int \<Rightarrow> string" where
  "str_int i = (if i < 0 then CHR ''-'' # str_nat (nat (- i)) else str_nat (nat i))"

fun py_str :: "('f \<Rightarrow> string) \<Rightarrow> 'f tok_value \<Rightarrow> string" where
  "py_str R (StrV s) = s"
| "py_str R (IntV i) = str_int i"
| "py_str R (FloatV x) = R x"
| "py_str R NoneV = ''None''"

record tac_generator =
  temp_count :: nat
  label_count :: nat
  code :: "string list"

definition TACGenerator_init :: tac_generator where
  "TACGenerator_init = \<lparr>temp_count = 0, label_count = 0, code = []\<rparr>"

definition new_temp :: "tac_generator \<Rightarrow> string \<times> tac_generator" where
  "new_temp g = (''t'' @ str_nat (temp_count g), g\<lparr>temp_count := temp_count g + 1\<rparr>)"

definition new_label :: "tac_generator \<Rightarrow> string \<times> tac_generator" where
  "new_label g = (''L'' @ str_nat (label_count g), g\<lparr>label_count := label_count g + 1\<rparr>)"

definition append_code :: "string \<Rightarrow> tac_generator \<Rightarrow> tac_generator" where
  "append_code ins g = g\<lparr>code := code g @ [ins]\<rparr>"

definition op_map :: "(string \<times> string) list" where
  "op_map = [(''+'', ''ADD''), (''-'', ''SUB''), (''*'', ''MUL''), (''/'', ''DIV''),
             (''='', ''EQ''), (''<>'', ''NE''), (''<'', ''LT''), (''>'', ''GT''),
             (''<='', ''LE''), (''>='', ''GE''), (''and'', ''AND''), (''or'', ''OR'')]"

definition ord :: "char \<Rightarrow> nat" where
  "ord c = of_char c"

definition upper_char :: "char \<Rightarrow> char" where
  "upper_char c = (if 97 \<le> ord c \<and> ord c \<le> 122 then char_of (ord c - 32) else c)"

definition lower_char :: "char \<Rightarrow> char" where
  "lower_char c =
     (if (65 \<le> ord c \<and> ord c \<le> 90) \<or> (192 \<le> ord c \<and> ord c \<le> 222 \<and> ord c \<noteq> 215)
      then char_of (ord c + 32) else c)"

function (sequential) generate :: "('f \<Rightarrow> string) \<Rightarrow> 'f expr \<Rightarrow> tac_generator \<Rightarrow> string \<times> tac_generator"
  and generate_binop :: "('f \<Rightarrow> string) \<Rightarrow> 'f expr \<Rightarrow> string \<Rightarrow> 'f expr \<Rightarrow> tac_generator \<Rightarrow> string \<times> tac_generator"
  and generate_unary :: "('f \<Rightarrow> string) \<Rightarrow> string \<Rightarrow> 'f expr \<Rightarrow> tac_generator \<Rightarrow> string \<times> tac_generator"
where
  "generate R (BinOpNode l opv r) g = generate_binop R l opv r g"
| "generate R (UnaryOpNode opv e) g = generate_unary R opv e g"
| "generate R (VarNode v) g = (v, g)"
| "generate R (NumNode n) g =
     (case new_temp g of (temp, g1) \<Rightarrow>
        (temp, append_code (temp @ '' := '' @ py_str R n) g1))"
| "generate R (BooleanNode b) g =
     (case new_temp g of (temp, g1) \<Rightarrow>
        (temp, append_code (temp @ '' := '' @ (if b then ''1'' else ''0'')) g1))"
| "generate_binop R l opv r g =
     (case generate R l g of (left_temp, g1) \<Rightarrow>
      case generate R r g1 of (right_temp, g2) \<Rightarrow>
      case new_temp g2 of (result_temp, g3) \<Rightarrow>
        (let op = (case map_of op_map opv of Some m \<Rightarrow> m | None \<Rightarrow> map upper_char opv)
         in (result_temp,
             append_code (result_temp @ '' := '' @ left_temp @ '' '' @ op @ '' '' @ right_temp) g3)))"
| "generate_unary R opv e g =
     (case generate R e g of (expr_temp, g1) \<Rightarrow>
      case new_temp g1 of (result_temp, g2) \<Rightarrow>
        (if opv = ''not''
         then (result_temp, append_code (result_temp @ '' := NOT '' @ expr_temp) g2)
         else (result_temp, append_code (result_temp @ '' := '' @ opv @ '' '' @ expr_temp) g2)))"

  by pat_completeness auto
termination
  by (relation "measure (\<lambda>x. case x of
          Inl (R, e, g) \<Rightarrow> 2 * size e
        | Inr (Inl (R, l, opv, r, g)) \<Rightarrow> 2 * (size l + size r) + 1
        | Inr (Inr (R, opv, e, g)) \<Rightarrow> 2 * size e + 1)") auto

function (sequential) generate_stmt :: "('f \<Rightarrow> string) \<Rightarrow> 'f stmt \<Rightarrow> tac_generator \<Rightarrow> tac_generator"
  and generate_stmts :: "('f \<Rightarrow> string) \<Rightarrow> 'f stmt list \<Rightarrow> tac_generator \<Rightarrow> tac_generator"
  and generate_if :: "('f \<Rightarrow> string) \<Rightarrow> 'f expr \<Rightarrow> 'f stmt list \<Rightarrow> 'f stmt list \<Rightarrow> tac_generator \<Rightarrow> tac_generator"
  and generate_while :: "('f \<Rightarrow> string) \<Rightarrow> 'f expr \<Rightarrow> 'f stmt list \<Rightarrow> tac_generator \<Rightarrow> tac_generator"
where
  "generate_stmt R (AssignmentNode target e) g =
     (case generate R e g of (value_temp, g1) \<Rightarrow>
        append_code (target @ '' := '' @ value_temp) g1)"
| "generate_stmt R (IfNode c th el) g = generate_if R c th el g"
| "generate_stmt R (WhileNode c body) g = generate_while R c body g"
| "generate_stmt R (ReadNode v) g = append_code (''READ '' @ v) g"
| "generate_stmt R (WriteNode e) g =
     (case generate R e g of (value_temp, g1) \<Rightarrow>
        append_code (''WRITE '' @ value_temp) g1)"
| "generate_stmts R [] g = g"
| "generate_stmts R (s # ss) g = generate_stmts R ss (generate_stmt R s g)"
| "generate_if R c th el g =
     (case generate R c g of (condition_temp, g1) \<Rightarrow>
      case new_label g1 of (false_label, g2) \<Rightarrow>
      case new_label g2 of (end_label, g3) \<Rightarrow>
        (let g4 = append_code (''IF_FALSE '' @ condition_temp @ '' GOTO '' @ false_label) g3;
             g5 = generate_stmts R th g4
         in if el \<noteq> []
            then (let g6 = append_code (''GOTO '' @ end_label) g5;
                      g7 = append_code (''LABEL '' @ false_label) g6;
                      g8 = generate_stmts R el g7
                  in append_code (''LABEL '' @ end_label) g8)
            else append_code (''LABEL '' @ false_label) g5))"
| "generate_while R c body g =
     (case new_label g of (start_label, g1) \<Rightarrow>
      case new_label g1 of (end_label, g2) \<Rightarrow>
        (let g3 = append_code (''LABEL '' @ start_label) g2 in
         case generate R c g3 of (condition_temp, g4) \<Rightarrow>
           (let g5 = append_code (''IF_FALSE '' @ condition_temp @ '' GOTO '' @ end_label) g4;
                g6 = generate_stmts R body g5;
                g7 = append_code (''GOTO '' @ start_label) g6
            in append_code (''LABEL '' @ end_label) g7)))"

  by pat_completeness auto
termination
  by (relation "measure (\<lambda>x. case x of
          Inl (Inl (R, s, g)) \<Rightarrow> 3 * size s
        | Inl (Inr (R, ss, g)) \<Rightarrow> 3 * size_list size ss + 1
        | Inr (Inl (R, c, th, el, g)) \<Rightarrow> 3 * (size_list size th + size_list size el) + 2
        | Inr (Inr (R, c, body, g)) \<Rightarrow> 3 * size_list size body + 2)") auto


definition fresh :: "nat \<Rightarrow> nat \<Rightarrow> tac_generator" where
  "fresh t l = \<lparr>temp_count = t, label_count = l, code = []\<rparr>"

definition expr_result :: "('f \<Rightarrow> string) \<Rightarrow> 'f expr \<Rightarrow> nat \<Rightarrow> string" where
  "expr_result R e t = fst (generate R e (fresh t 0))"

definition expr_temps :: "('f \<Rightarrow> string) \<Rightarrow> 'f expr \<Rightarrow> nat \<Rightarrow> nat" where
  "expr_temps R e t = temp_count (snd (generate R e (fresh t 0)))"

definition expr_code :: "('f \<Rightarrow> string) \<Rightarrow> 'f expr \<Rightarrow> nat \<Rightarrow> string list" where
  "expr_code R e t = code (snd (generate R e (fresh t 0)))"

definition stmts_temps :: "('f \<Rightarrow> string) \<Rightarrow> 'f stmt list \<Rightarrow> nat \<Rightarrow> nat \<Rightarrow> nat" where
  "stmts_temps R ss t l = temp_count (generate_stmts R ss (fresh t l))"

definition stmts_labels :: "('f \<Rightarrow> string) \<Rightarrow> 'f stmt list \<Rightarrow> nat \<Rightarrow> nat \<Rightarrow> nat" where
  "stmts_labels R ss t l = label_count (generate_stmts R ss (fresh t l))"

definition stmts_code :: "('f \<Rightarrow> string) \<Rightarrow> 'f stmt list \<Rightarrow> nat \<Rightarrow> nat \<Rightarrow> string list" where
  "stmts_code R ss t l = code (generate_stmts R ss (fresh t l))"

record declaration_node =
  identifiers :: "string list"
  type_name :: string

record 'f program_node =
  name :: string
  declarations :: "declaration_node list"
  statements :: "'f stmt list"




definition extended :: "nat \<Rightarrow> nat \<Rightarrow> string list \<Rightarrow> tac_generator \<Rightarrow> tac_generator" where
  "extended t l ys g = \<lparr>temp_count = t, label_count = l, code = code g @ ys\<rparr>"

definition framed :: "(tac_generator \<Rightarrow> tac_generator) \<Rightarrow> bool" where
  "framed f \<longleftrightarrow> (\<forall>t l. \<exists>t' l' ys. \<forall>g. temp_count g = t \<and> label_count g = l \<longrightarrow>
      f g = extended t' l' ys g)"

fun label_demand :: "'f stmt \<Rightarrow> nat" where
  "label_demand (IfNode c th el) =
     2 + sum_list (map label_demand th) + sum_list (map label_demand el)"
| "label_demand (WhileNode c body) = 2 + sum_list (map label_demand body)"
| "label_demand (AssignmentNode v e) = 0"
| "label_demand (ReadNode v) = 0"
| "label_demand (WriteNode e) = 0"

section \<open>Lowering appends code and depends on the counters only\<close>

lemma extended_sel [simp]:
  "temp_count (extended t l ys g) = t"
  "label_count (extended t l ys g) = l"
  "code (extended t l ys g) = code g @ ys"
  by (simp_all add: extended_def)

lemma extended_extended [simp]:
  "extended t2 l2 ys2 (extended t1 l1 ys1 g) = extended t2 l2 (ys1 @ ys2) g"
  by (simp add: extended_def)

lemma extended_same:
  "temp_count g = t \<Longrightarrow> label_count g = l \<Longrightarrow> extended t l [] g = g"
  by (cases g) (simp add: extended_def)

lemma extended_fresh: "extended t l ys (fresh t0 l0) = \<lparr>temp_count = t, label_count = l, code = ys\<rparr>"
  by (simp add: extended_def fresh_def)

lemma new_temp_adv:
  "new_temp g = (''t'' @ str_nat (temp_count g), extended (Suc (temp_count g)) (label_count g) [] g)"
  by (cases g) (simp add: new_temp_def extended_def)

lemma new_label_adv:
  "new_label g = (''L'' @ str_nat (label_count g), extended (temp_count g) (Suc (label_count g)) [] g)"
  by (cases g) (simp add: new_label_def extended_def)

lemma append_code_adv:
  "append_code ins g = extended (temp_count g) (label_count g) [ins] g"
  by (cases g) (simp add: append_code_def extended_def)

lemma generate_frame_ex:
  "\<exists>nm t' ys. \<forall>g. temp_count g = t \<longrightarrow>
      generate R e g = (nm, extended t' (label_count g) ys g)"
proof (induction e arbitrary: t)
  case (BinOpNode l opv r)
  obtain n1 t1 ys1 where L: "\<And>g. temp_count g = t \<Longrightarrow>
      generate R l g = (n1, extended t1 (label_count g) ys1 g)"
    using BinOpNode.IH(1)[of t] by blast
  obtain n2 t2 ys2 where Rr: "\<And>g. temp_count g = t1 \<Longrightarrow>
      generate R r g = (n2, extended t2 (label_count g) ys2 g)"
    using BinOpNode.IH(2)[of t1] by blast
  show ?case
    apply (rule exI[of _ "''t'' @ str_nat t2"])
    apply (rule exI[of _ "Suc t2"])
    apply (rule exI[of _ "ys1 @ ys2 @ [(''t'' @ str_nat t2) @ '' := '' @ n1 @ '' '' @
        (case map_of op_map opv of Some m \<Rightarrow> m | None \<Rightarrow> map upper_char opv) @ '' '' @ n2]"])
    by (simp add: L Rr new_temp_adv append_code_adv)
next
  case (UnaryOpNode opv e)
  obtain n1 t1 ys1 where L: "\<And>g. temp_count g = t \<Longrightarrow>
      generate R e g = (n1, extended t1 (label_count g) ys1 g)"
    using UnaryOpNode.IH[of t] by blast
  show ?case
    apply (rule exI[of _ "''t'' @ str_nat t1"])
    apply (rule exI[of _ "Suc t1"])
    apply (rule exI[of _ "ys1 @ [if opv = ''not'' then (''t'' @ str_nat t1) @ '' := NOT '' @ n1
                                 else (''t'' @ str_nat t1) @ '' := '' @ opv @ '' '' @ n1]"])
    by (simp add: L new_temp_adv append_code_adv)
next
  case (VarNode v)
  show ?case
    apply (rule exI[of _ v], rule exI[of _ t], rule exI[of _ "[]"])
    by (simp add: extended_same)
next
  case (NumNode n)
  show ?case
    apply (rule exI[of _ "''t'' @ str_nat t"], rule exI[of _ "Suc t"])
    apply (rule exI[of _ "[(''t'' @ str_nat t) @ '' := '' @ py_str R n]"])
    by (simp add: new_temp_adv append_code_adv)
next
  case (BooleanNode b)
  show ?case
    apply (rule exI[of _ "''t'' @ str_nat t"], rule exI[of _ "Suc t"])
    apply (rule exI[of _ "[(''t'' @ str_nat t) @ '' := '' @ (if b then ''1'' else ''0'')]"])
    by (simp add: new_temp_adv append_code_adv)
qed

lemma generate_adv:
  "generate R e g = (expr_result R e (temp_count g),
      extended (expr_temps R e (temp_count g)) (label_count g) (expr_code R e (temp_count g)) g)"
proof -
  obtain nm t' ys where F: "\<And>h. temp_count h = temp_count g \<Longrightarrow>
      generate R e h = (nm, extended t' (label_count h) ys h)"
    using generate_frame_ex[of "temp_count g" R e] by blast
  have "generate R e (fresh (temp_count g) 0)
          = (nm, extended t' (label_count (fresh (temp_count g) 0)) ys (fresh (temp_count g) 0))"
    by (rule F) (simp add: fresh_def)
  then have "expr_result R e (temp_count g) = nm" "expr_temps R e (temp_count g) = t'"
      "expr_code R e (temp_count g) = ys"
    by (simp_all add: expr_result_def expr_temps_def expr_code_def extended_fresh)
  then show ?thesis using F[of g] by simp
qed

lemma framedI:
  assumes "\<And>t l. \<exists>t' l' ys. \<forall>g. temp_count g = t \<and> label_count g = l \<longrightarrow>
      f g = extended t' l' ys g"
  shows "framed f"
  using assms unfolding framed_def by blast

lemma framed_stmts:
  "(\<And>s. s \<in> set ss \<Longrightarrow> framed (generate_stmt R s)) \<Longrightarrow> framed (generate_stmts R ss)"
proof (induction ss)
  case Nil
  show ?case
  proof (rule framedI)
    fix t l
    show "\<exists>t' l' ys. \<forall>g. temp_count g = t \<and> label_count g = l \<longrightarrow>
        generate_stmts R [] g = extended t' l' ys g"
      by (rule exI[of _ t], rule exI[of _ l], rule exI[of _ "[]"])
         (simp add: extended_same)
  qed
next
  case (Cons s ss)
  have S: "framed (generate_stmt R s)" using Cons.prems by simp
  have SS: "framed (generate_stmts R ss)" using Cons by simp
  show ?case
  proof (rule framedI)
    fix t l
    obtain t1 l1 ys1 where A: "\<And>g. temp_count g = t \<Longrightarrow> label_count g = l \<Longrightarrow>
        generate_stmt R s g = extended t1 l1 ys1 g"
      using S unfolding framed_def by blast
    obtain t2 l2 ys2 where B: "\<And>g. temp_count g = t1 \<Longrightarrow> label_count g = l1 \<Longrightarrow>
        generate_stmts R ss g = extended t2 l2 ys2 g"
      using SS unfolding framed_def by blast
    show "\<exists>t' l' ys. \<forall>g. temp_count g = t \<and> label_count g = l \<longrightarrow>
        generate_stmts R (s # ss) g = extended t' l' ys g"
      by (rule exI[of _ t2], rule exI[of _ l2], rule exI[of _ "ys1 @ ys2"]) (simp add: A B)
  qed
qed

lemma framed_if:
  assumes T: "framed (generate_stmts R th)" and E: "framed (generate_stmts R el)"
  shows "framed (generate_if R c th el)"
proof (rule framedI)
  fix t l
  obtain t1 l1 ys1 where A: "\<And>g. temp_count g = expr_temps R c t \<Longrightarrow> label_count g = Suc (Suc l) \<Longrightarrow>
      generate_stmts R th g = extended t1 l1 ys1 g"
    using T unfolding framed_def by blast
  obtain t2 l2 ys2 where B: "\<And>g. temp_count g = t1 \<Longrightarrow> label_count g = l1 \<Longrightarrow>
      generate_stmts R el g = extended t2 l2 ys2 g"
    using E unfolding framed_def by blast
  show "\<exists>t' l' ys. \<forall>g. temp_count g = t \<and> label_count g = l \<longrightarrow>
      generate_if R c th el g = extended t' l' ys g"
  proof (cases "el = []")
    case True
    show ?thesis
      apply (rule exI[of _ t1], rule exI[of _ l1])
      apply (rule exI[of _ "expr_code R c t @
          [''IF_FALSE '' @ expr_result R c t @ '' GOTO '' @ ''L'' @ str_nat l] @ ys1 @
          [''LABEL '' @ ''L'' @ str_nat l]"])
      using True by (simp add: generate_adv new_label_adv append_code_adv A Let_def)
  next
    case False
    show ?thesis
      apply (rule exI[of _ t2], rule exI[of _ l2])
      apply (rule exI[of _ "expr_code R c t @
          [''IF_FALSE '' @ expr_result R c t @ '' GOTO '' @ ''L'' @ str_nat l] @ ys1 @
          [''GOTO '' @ ''L'' @ str_nat (Suc l), ''LABEL '' @ ''L'' @ str_nat l] @ ys2 @
          [''LABEL '' @ ''L'' @ str_nat (Suc l)]"])
      using False by (simp add: generate_adv new_label_adv append_code_adv A B Let_def)
  qed
qed

lemma framed_while:
  assumes Bd: "framed (generate_stmts R body)"
  shows "framed (generate_while R c body)"
proof (rule framedI)
  fix t l
  obtain t1 l1 ys1 where A: "\<And>g. temp_count g = expr_temps R c t \<Longrightarrow> label_count g = Suc (Suc l) \<Longrightarrow>
      generate_stmts R body g = extended t1 l1 ys1 g"
    using Bd unfolding framed_def by blast
  show "\<exists>t' l' ys. \<forall>g. temp_count g = t \<and> label_count g = l \<longrightarrow>
      generate_while R c body g = extended t' l' ys g"
    apply (rule exI[of _ t1], rule exI[of _ l1])
    apply (rule exI[of _ "[''LABEL '' @ ''L'' @ str_nat l] @ expr_code R c t @
        [''IF_FALSE '' @ expr_result R c t @ '' GOTO '' @ ''L'' @ str_nat (Suc l)] @ ys1 @
        [''GOTO '' @ ''L'' @ str_nat l, ''LABEL '' @ ''L'' @ str_nat (Suc l)]"])
    by (simp add: generate_adv new_label_adv append_code_adv A Let_def)
qed

lemma framed_generate_stmt: "framed (generate_stmt R s)"
proof (induction s)
  case (AssignmentNode v e)
  show ?case
  proof (rule framedI)
    fix t l
    show "\<exists>t' l' ys. \<forall>g. temp_count g = t \<and> label_count g = l \<longrightarrow>
        generate_stmt R (AssignmentNode v e) g = extended t' l' ys g"
      apply (rule exI[of _ "expr_temps R e t"], rule exI[of _ l])
      apply (rule exI[of _ "expr_code R e t @ [v @ '' := '' @ expr_result R e t]"])
      by (simp add: generate_adv append_code_adv)
  qed
next
  case (IfNode c th el)
  have "framed (generate_if R c th el)"
    using IfNode by (intro framed_if framed_stmts)
  moreover have "generate_stmt R (IfNode c th el) = generate_if R c th el"
    by (rule ext) simp
  ultimately show ?case by (simp only:)
next
  case (WhileNode c body)
  have "framed (generate_while R c body)"
    using WhileNode by (intro framed_while framed_stmts)
  moreover have "generate_stmt R (WhileNode c body) = generate_while R c body"
    by (rule ext) simp
  ultimately show ?case by (simp only:)
next
  case (ReadNode v)
  show ?case
  proof (rule framedI)
    fix t l
    show "\<exists>t' l' ys. \<forall>g. temp_count g = t \<and> label_count g = l \<longrightarrow>
        generate_stmt R (ReadNode v) g = extended t' l' ys g"
      by (rule exI[of _ t], rule exI[of _ l], rule exI[of _ "[''READ '' @ v]"])
         (simp add: append_code_adv)
  qed
next
  case (WriteNode e)
  show ?case
  proof (rule framedI)
    fix t l
    show "\<exists>t' l' ys. \<forall>g. temp_count g = t \<and> label_count g = l \<longrightarrow>
        generate_stmt R (WriteNode e) g = extended t' l' ys g"
      apply (rule exI[of _ "expr_temps R e t"], rule exI[of _ l])
      apply (rule exI[of _ "expr_code R e t @ [''WRITE '' @ expr_result R e t]"])
      by (simp add: generate_adv append_code_adv)
  qed
qed

lemma generate_stmts_adv:
  "generate_stmts R ss g =
     extended (stmts_temps R ss (temp_count g) (label_count g))
             (stmts_labels R ss (temp_count g) (label_count g))
             (stmts_code R ss (temp_count g) (label_count g)) g"
proof -
  have "framed (generate_stmts R ss)"
    by (rule framed_stmts) (rule framed_generate_stmt)
  then obtain t' l' ys where F: "\<And>h. temp_count h = temp_count g \<Longrightarrow>
      label_count h = label_count g \<Longrightarrow> generate_stmts R ss h = extended t' l' ys h"
    unfolding framed_def by blast
  have "generate_stmts R ss (fresh (temp_count g) (label_count g))
          = extended t' l' ys (fresh (temp_count g) (label_count g))"
    by (rule F) (simp_all add: fresh_def)
  then have "stmts_temps R ss (temp_count g) (label_count g) = t'"
      "stmts_labels R ss (temp_count g) (label_count g) = l'"
      "stmts_code R ss (temp_count g) (label_count g) = ys"
    by (simp_all add: stmts_temps_def stmts_labels_def stmts_code_def extended_fresh)
  then show ?thesis using F[of g] by simp
qed

lemma label_count_stmts:
  "(\<And>s g. s \<in> set ss \<Longrightarrow> label_count (generate_stmt R s g) = label_count g + label_demand s)
   \<Longrightarrow> label_count (generate_stmts R ss g) = label_count g + sum_list (map label_demand ss)"
  by (induction ss arbitrary: g) simp_all

lemma label_count_generate_stmt:
  "label_count (generate_stmt R s g) = label_count g + label_demand s"
proof (induction s arbitrary: g)
  case (IfNode c th el)
  have T: "\<And>g. label_count (generate_stmts R th g) = label_count g + sum_list (map label_demand th)"
    using IfNode.IH(1) by (rule label_count_stmts)
  have E: "\<And>g. label_count (generate_stmts R el g) = label_count g + sum_list (map label_demand el)"
    using IfNode.IH(2) by (rule label_count_stmts)
  show ?case
    by (cases "el = []") (simp_all add: generate_adv new_label_adv append_code_adv Let_def T E)
next
  case (WhileNode c body)
  have B: "\<And>g. label_count (generate_stmts R body g) = label_count g + sum_list (map label_demand body)"
    using WhileNode.IH by (rule label_count_stmts)
  show ?case
    by (simp add: generate_adv new_label_adv append_code_adv Let_def B)
qed (simp_all add: generate_adv append_code_adv)

lemma label_count_generate_stmts:
  "label_count (generate_stmts R ss g) = label_count g + sum_list (map label_demand ss)"
  by (rule label_count_stmts) (rule label_count_generate_stmt)

section \<open>Lowering of control flow\<close>

text \<open>
  Claim C1 (as amended): for an if whose else-branch is empty, lowering appends exactly the
  condition's instructions, one IF_FALSE jump to the false label, the then-branch's
  instructions and the definition of the false label. No jump to an end label and no
  definition of one is appended; the end label is allocated all the same, so the label
  counter advances by two for the if itself, plus the labels of the statements nested in the
  then-branch.
\<close>

theorem C1_if_without_else_lowering:
  "code (generate_stmt R (IfNode c th []) g) =
     code g @ expr_code R c (temp_count g)
       @ [''IF_FALSE '' @ expr_result R c (temp_count g) @ '' GOTO L'' @ str_nat (label_count g)]
       @ stmts_code R th (expr_temps R c (temp_count g)) (label_count g + 2)
       @ [''LABEL L'' @ str_nat (label_count g)]
   \<and> label_count (generate_stmt R (IfNode c th []) g)
       = label_count g + 2 + sum_list (map label_demand th)"
proof
  show "code (generate_stmt R (IfNode c th []) g) =
     code g @ expr_code R c (temp_count g)
       @ [''IF_FALSE '' @ expr_result R c (temp_count g) @ '' GOTO L'' @ str_nat (label_count g)]
       @ stmts_code R th (expr_temps R c (temp_count g)) (label_count g + 2)
       @ [''LABEL L'' @ str_nat (label_count g)]"
    by (simp add: generate_adv new_label_adv append_code_adv generate_stmts_adv Let_def)
  show "label_count (generate_stmt R (IfNode c th []) g)
       = label_count g + 2 + sum_list (map label_demand th)"
    by (subst label_count_generate_stmt) simp
qed

text \<open>
  The label counter does not extended by one: from a new generator, an if without else
  whose then-branch is a single read leaves the counter at two.
\<close>

theorem C1_label_counter_counterexample:
  "label_count (generate_stmt (\<lambda>x::unit. ''0.0'') (IfNode (BooleanNode True) [ReadNode ''x''] []) TACGenerator_init)
     \<noteq> label_count TACGenerator_init + 1"
  by (subst label_count_generate_stmt) (simp add: TACGenerator_init_def)

text \<open>
  Claim C2: a while lowers to the start label, the condition's instructions, one IF_FALSE
  jump to the end label, the body's instructions, a jump back to the start label and the
  end label; the condition's instructions occur once.
\<close>

theorem C2_while_lowering:
  "code (generate_stmt R (WhileNode c body) g) =
     code g @ [''LABEL L'' @ str_nat (label_count g)]
       @ expr_code R c (temp_count g)
       @ [''IF_FALSE '' @ expr_result R c (temp_count g) @ '' GOTO L'' @ str_nat (label_count g + 1)]
       @ stmts_code R body (expr_temps R c (temp_count g)) (label_count g + 2)
       @ [''GOTO L'' @ str_nat (label_count g), ''LABEL L'' @ str_nat (label_count g + 1)]"
  by (simp add: generate_adv new_label_adv append_code_adv generate_stmts_adv Let_def)

section \<open>Generation runs are independent\<close>


section \<open>Boolean literals\<close>

text \<open>
  Claim C10: lowering a boolean literal allocates the next temporary and appends one
  assignment of the integer 1 (true) or 0 (false) to it; the words true and false are
  never written.
\<close>

theorem C10_boolean_literal_lowering:
  "generate R (BooleanNode b) g =
     (''t'' @ str_nat (temp_count g),
      g\<lparr>temp_count := temp_count g + 1,
        code := code g @ [''t'' @ str_nat (temp_count g) @ '' := '' @ (if b then ''1'' else ''0'')]\<rparr>)"
  by (simp add: new_temp_adv append_code_adv extended_def)

section \<open>Tokens and errors\<close>

text \<open>
  Every stage reports failure by raising an exception with a message; the messages are
  modelled as constructors that carry the values the message prints.
\<close>

datatype token_type =
    PROGRAM | VAR | BEGIN | END | IF | THEN | ELSE | WHILE | DO | READ | WRITE
  | INTEGER | REAL | BOOLEAN | AND | OR | NOT
  | ID | NUMBER | BOOLEAN_LIT
  | ASSIGN | EQ | NEQ | LT | GT | LTE | GTE | PLUS | MINUS | MULT | DIV
  | LPAREN | RPAREN | SEMI | COLON | COMMA | DOT
  | EOF

record 'f token =
  ttype :: token_type
  tvalue :: "'f tok_value"
  tline :: nat
  tcolumn :: nat

datatype syntax_message =
    Expected token_type token_type nat
  | ExpectedOneOf "token_type list" string
  | UnexpectedTokensAfterProgramEnd
  | ExpectedFactor token_type

datatype 'f error =
    LexicalError nat nat char
  | ValueError string
  | SyntaxError nat syntax_message "'f token"
  | AlreadyDeclared string nat
  | NotDeclaredAt nat string
  | ParsingFailed "'f error"
  | NotDeclared string
  | IncompatibleTypes string string string
  | UnaryTypeError string string
  | CannotAssign string string string
  | IfConditionNotBoolean string
  | WhileConditionNotBoolean string

section \<open>Semantic analyzer\<close>

definition arithmetic_ops :: "string list" where
  "arithmetic_ops = [''+'', ''-'', ''*'', ''/'']"

definition relational_ops :: "string list" where
  "relational_ops = [''='', ''<>'', ''<'', ''>'', ''<='', ''>='']"

definition logical_ops :: "string list" where
  "logical_ops = [''and'', ''or'']"

definition check_binary_operation :: "string \<Rightarrow> string \<Rightarrow> string \<Rightarrow> 'f error + string" where
  "check_binary_operation left_type op right_type =
     (if op \<in> set arithmetic_ops then
        (if left_type \<in> set [''integer'', ''real''] \<and> right_type \<in> set [''integer'', ''real'']
         then Inr (if ''real'' \<in> set [left_type, right_type] then ''real'' else ''integer'')
         else Inl (IncompatibleTypes left_type right_type op))
      else if op \<in> set relational_ops then
        (if left_type = right_type \<or>
            (left_type \<in> set [''integer'', ''real''] \<and> right_type \<in> set [''integer'', ''real''])
         then Inr ''boolean''
         else Inl (IncompatibleTypes left_type right_type op))
      else if op \<in> set logical_ops then
        (if left_type = ''boolean'' \<and> right_type = ''boolean''
         then Inr ''boolean''
         else Inl (IncompatibleTypes left_type right_type op))
      else Inl (IncompatibleTypes left_type right_type op))"

definition check_unary_operation :: "string \<Rightarrow> string \<Rightarrow> 'f error + string" where
  "check_unary_operation op expr_type =
     (if op = ''not'' \<and> expr_type = ''boolean'' then Inr ''boolean''
      else Inl (UnaryTypeError op expr_type))"

fun analyze_num :: "'f tok_value \<Rightarrow> string" where
  "analyze_num (IntV i) = ''integer''"
| "analyze_num v = ''real''"

type_synonym symtab = "string \<rightharpoonup> string"

fun analyze :: "symtab \<Rightarrow> 'f expr \<Rightarrow> 'f error + string" where
  "analyze st (BinOpNode l opv r) =
     (case analyze st l of Inl e \<Rightarrow> Inl e | Inr left_type \<Rightarrow>
      case analyze st r of Inl e \<Rightarrow> Inl e | Inr right_type \<Rightarrow>
        check_binary_operation left_type opv right_type)"
| "analyze st (UnaryOpNode opv e) =
     (case analyze st e of Inl err \<Rightarrow> Inl err | Inr expr_type \<Rightarrow>
        check_unary_operation opv expr_type)"
| "analyze st (VarNode v) =
     (case st v of None \<Rightarrow> Inl (NotDeclared v) | Some t \<Rightarrow> Inr t)"
| "analyze st (NumNode n) = Inr (analyze_num n)"
| "analyze st (BooleanNode b) = Inr ''boolean''"

fun analyze_stmt :: "symtab \<Rightarrow> 'f stmt \<Rightarrow> 'f error + unit"
  and analyze_stmts :: "symtab \<Rightarrow> 'f stmt list \<Rightarrow> 'f error + unit"
where
  "analyze_stmt st (AssignmentNode v e) =
     (case st v of None \<Rightarrow> Inl (NotDeclared v) | Some var_type \<Rightarrow>
      case analyze st e of Inl err \<Rightarrow> Inl err | Inr expr_type \<Rightarrow>
        if var_type \<noteq> expr_type \<and>
           \<not> (var_type \<in> set [''integer'', ''real''] \<and> expr_type \<in> set [''integer'', ''real''])
        then Inl (CannotAssign expr_type var_type v)
        else Inr ())"
| "analyze_stmt st (IfNode c th el) =
     (case analyze st c of Inl err \<Rightarrow> Inl err | Inr condition_type \<Rightarrow>
        if condition_type \<noteq> ''boolean'' then Inl (IfConditionNotBoolean condition_type)
        else case analyze_stmts st th of Inl err \<Rightarrow> Inl err | Inr u \<Rightarrow> analyze_stmts st el)"
| "analyze_stmt st (WhileNode c body) =
     (case analyze st c of Inl err \<Rightarrow> Inl err | Inr condition_type \<Rightarrow>
        if condition_type \<noteq> ''boolean'' then Inl (WhileConditionNotBoolean condition_type)
        else analyze_stmts st body)"
| "analyze_stmt st (ReadNode v) =
     (case st v of None \<Rightarrow> Inl (NotDeclared v) | Some t \<Rightarrow> Inr ())"
| "analyze_stmt st (WriteNode e) =
     (case analyze st e of Inl err \<Rightarrow> Inl err | Inr t \<Rightarrow> Inr ())"
| "analyze_stmts st [] = Inr ()"
| "analyze_stmts st (s # ss) =
     (case analyze_stmt st s of Inl err \<Rightarrow> Inl err | Inr u \<Rightarrow> analyze_stmts st ss)"

definition analyze_declaration :: "declaration_node \<Rightarrow> symtab \<Rightarrow> symtab" where
  "analyze_declaration node st = fold (\<lambda>identifier st. st(identifier \<mapsto> type_name node)) (identifiers node) st"

definition analyze_program :: "'f program_node \<Rightarrow> symtab \<Rightarrow> 'f error + symtab" where
  "analyze_program node st =
     (let st1 = fold analyze_declaration (declarations node) st
      in case analyze_stmts st1 (statements node) of Inl err \<Rightarrow> Inl err | Inr u \<Rightarrow> Inr st1)"

text \<open>
  Claim C5: under an arithmetic operator, two numeric operand types give real when at least
  one of them is real and integer when both are integer; any other pair of operand types
  fails with the incompatible-types error that carries both types and the operator.
\<close>

theorem C5_arithmetic_result_type:
  assumes "op \<in> {''+'', ''-'', ''*'', ''/''}"
  shows "(check_binary_operation lt op rt :: 'f error + string) =
     (if lt \<in> {''integer'', ''real''} \<and> rt \<in> {''integer'', ''real''}
      then Inr (if lt = ''real'' \<or> rt = ''real'' then ''real'' else ''integer'')
      else Inl (IncompatibleTypes lt rt op))"
  using assms by (auto simp add: check_binary_operation_def arithmetic_ops_def)

text \<open>The rule at integer + real, integer + integer and boolean + integer.\<close>

theorem C5_arithmetic_result_type_witness:
  "''+'' \<in> {''+'', ''-'', ''*'', ''/''}
   \<and> (check_binary_operation ''integer'' ''+'' ''real'' :: unit error + string) = Inr ''real''
   \<and> (check_binary_operation ''integer'' ''+'' ''integer'' :: unit error + string) = Inr ''integer''
   \<and> (check_binary_operation ''boolean'' ''+'' ''integer'' :: unit error + string)
       = Inl (IncompatibleTypes ''boolean'' ''integer'' ''+'')"
  using C5_arithmetic_result_type[of "''+''" "''integer''" "''real''"]
        C5_arithmetic_result_type[of "''+''" "''integer''" "''integer''"]
        C5_arithmetic_result_type[of "''+''" "''boolean''" "''integer''"]
  by simp

section \<open>Scanner\<close>

text \<open>
  The scanner state is the source text with the cursor position, line and column; the
  current character is the one at the cursor, or None past the end. A character is a code
  point below 256, and the character classes are those of Python's string methods there:
  \<open>isdigit\<close> holds of the decimal digits and of the superscripts one, two and three,
  which \<open>int\<close> and \<open>float\<close> refuse. \<open>py_int\<close> and \<open>py_float\<close> are the two
  conversions on the texts that \<open>number\<close> builds (digit characters around at most one
  dot); \<open>int\<close> refuses more digits than its conversion limit, 4300 by default.
\<close>

definition isspace :: "char \<Rightarrow> bool" where
  "isspace c = (ord c \<in> set [9, 10, 11, 12, 13, 28, 29, 30, 31, 32, 133, 160])"

definition isdecimal :: "char \<Rightarrow> bool" where
  "isdecimal c = (48 \<le> ord c \<and> ord c \<le> 57)"

definition isdigit :: "char \<Rightarrow> bool" where
  "isdigit c = (isdecimal c \<or> ord c \<in> set [178, 179, 185])"

definition isalpha :: "char \<Rightarrow> bool" where
  "isalpha c = ((65 \<le> ord c \<and> ord c \<le> 90) \<or> (97 \<le> ord c \<and> ord c \<le> 122)
     \<or> ord c \<in> set [170, 181, 186] \<or> (192 \<le> ord c \<and> ord c \<le> 214)
     \<or> (216 \<le> ord c \<and> ord c \<le> 246) \<or> (248 \<le> ord c \<and> ord c \<le> 255))"

definition isalnum :: "char \<Rightarrow> bool" where
  "isalnum c = (isalpha c \<or> isdigit c \<or> ord c \<in> set [188, 189, 190])"

definition lower :: "string \<Rightarrow> string" where
  "lower s = map lower_char s"

definition int_of_digits :: "string \<Rightarrow> int" where
  "int_of_digits s = foldl (\<lambda>a c. 10 * a + int (ord c - 48)) 0 s"

definition int_max_str_digits :: nat where
  "int_max_str_digits = 4300"

definition py_int :: "string \<Rightarrow> 'f error + 'f tok_value" where
  "py_int s =
     (if s \<noteq> [] \<and> list_all isdecimal s \<and> length s \<le> int_max_str_digits
      then Inr (IntV (int_of_digits s)) else Inl (ValueError s))"

definition py_float :: "(string \<Rightarrow> 'f) \<Rightarrow> string \<Rightarrow> 'f error + 'f tok_value" where
  "py_float F s =
     (if list_all (\<lambda>c. isdecimal c \<or> c = CHR ''.'') s \<and> list_ex isdecimal s
         \<and> length (filter (\<lambda>c. c = CHR ''.'') s) \<le> 1
      then Inr (FloatV (F s)) else Inl (ValueError s))"

definition keywords_map :: "(string \<times> token_type) list" where
  "keywords_map = [(''program'', PROGRAM), (''var'', VAR), (''begin'', BEGIN), (''end'', END),
     (''if'', IF), (''then'', THEN), (''else'', ELSE), (''while'', WHILE), (''do'', DO),
     (''read'', READ), (''write'', WRITE), (''integer'', INTEGER), (''real'', REAL),
     (''boolean'', BOOLEAN), (''and'', AND), (''or'', OR), (''not'', NOT),
     (''true'', BOOLEAN_LIT), (''false'', BOOLEAN_LIT)]"

record lexer =
  ltext :: string
  pos :: nat
  line :: nat
  column :: nat

definition Lexer_init :: "string \<Rightarrow> lexer" where
  "Lexer_init src = \<lparr>ltext = src, pos = 0, line = 1, column = 1\<rparr>"

definition current_char :: "lexer \<Rightarrow> char option" where
  "current_char lx = (if pos lx < length (ltext lx) then Some (ltext lx ! pos lx) else None)"

definition advance :: "lexer \<Rightarrow> lexer" where
  "advance lx =
     (let lx1 = (if current_char lx = Some (CHR 0x0A) then lx\<lparr>line := line lx + 1, column := 0\<rparr> else lx)
      in lx1\<lparr>pos := pos lx1 + 1, column := column lx1 + 1\<rparr>)"

definition Token :: "token_type \<Rightarrow> 'f tok_value \<Rightarrow> nat \<Rightarrow> nat \<Rightarrow> 'f token" where
  "Token ty v l c = \<lparr>ttype = ty, tvalue = v, tline = l, tcolumn = c\<rparr>"

lemma advance_pos [simp]: "pos (advance lx) = Suc (pos lx)"
  by (simp add: advance_def Let_def)

lemma advance_ltext [simp]: "ltext (advance lx) = ltext lx"
  by (simp add: advance_def Let_def)

lemma current_char_Some_pos: "current_char lx = Some c \<Longrightarrow> pos lx < length (ltext lx)"
  by (simp add: current_char_def split: if_splits)

function skip_whitespace :: "lexer \<Rightarrow> lexer" where
  "skip_whitespace lx =
     (case current_char lx of
        None \<Rightarrow> lx
      | Some c \<Rightarrow> if isspace c then skip_whitespace (advance lx) else lx)"
  by pat_completeness auto
termination
  by (relation "measure (\<lambda>lx. length (ltext lx) - pos lx)")
     (auto dest: current_char_Some_pos)

declare skip_whitespace.simps [simp del]

function skip_comment_while :: "lexer \<Rightarrow> lexer" where
  "skip_comment_while lx =
     (case current_char lx of
        None \<Rightarrow> lx
      | Some c \<Rightarrow> if c \<noteq> CHR 0x0A then skip_comment_while (advance lx) else lx)"
  by pat_completeness auto
termination
  by (relation "measure (\<lambda>lx. length (ltext lx) - pos lx)")
     (auto dest: current_char_Some_pos)

declare skip_comment_while.simps [simp del]

definition skip_comment :: "lexer \<Rightarrow> lexer" where
  "skip_comment lx = advance (skip_comment_while lx)"

function number_while :: "string \<Rightarrow> lexer \<Rightarrow> string \<times> lexer" where
  "number_while result lx =
     (case current_char lx of
        None \<Rightarrow> (result, lx)
      | Some c \<Rightarrow> if isdigit c then number_while (result @ [c]) (advance lx) else (result, lx))"
  by pat_completeness auto
termination
  by (relation "measure (\<lambda>(result, lx). length (ltext lx) - pos lx)")
     (auto dest: current_char_Some_pos)

declare number_while.simps [simp del]

definition number :: "(string \<Rightarrow> 'f) \<Rightarrow> lexer \<Rightarrow> 'f error + ('f token \<times> lexer)" where
  "number F lx =
     (case number_while [] lx of (result, lx1) \<Rightarrow>
        if current_char lx1 = Some CHR ''.''
        then (case number_while (result @ ''.'') (advance lx1) of (result2, lx2) \<Rightarrow>
                case py_float F result2 of
                  Inl e \<Rightarrow> Inl e
                | Inr v \<Rightarrow> Inr (Token NUMBER v (line lx2) (column lx2), lx2))
        else (case py_int result of
                Inl e \<Rightarrow> Inl e
              | Inr v \<Rightarrow> Inr (Token NUMBER v (line lx1) (column lx1), lx1)))"

function identifier_while :: "string \<Rightarrow> lexer \<Rightarrow> string \<times> lexer" where
  "identifier_while result lx =
     (case current_char lx of
        None \<Rightarrow> (result, lx)
      | Some c \<Rightarrow> if isalnum c \<or> c = CHR ''_''
                  then identifier_while (result @ [c]) (advance lx) else (result, lx))"
  by pat_completeness auto
termination
  by (relation "measure (\<lambda>(result, lx). length (ltext lx) - pos lx)")
     (auto dest: current_char_Some_pos)

declare identifier_while.simps [simp del]

definition lex_identifier :: "lexer \<Rightarrow> 'f token \<times> lexer" where
  "lex_identifier lx =
     (case identifier_while [] lx of (result, lx1) \<Rightarrow>
        (let token_type = (case map_of keywords_map (lower result) of Some k \<Rightarrow> k | None \<Rightarrow> ID)
         in (Token token_type (StrV result) (line lx1) (column lx1), lx1)))"

definition token_types :: "(char \<times> token_type) list" where
  "token_types = [(CHR ''+'', PLUS), (CHR ''-'', MINUS), (CHR ''*'', MULT), (CHR ''/'', DIV),
     (CHR ''='', EQ), (CHR ''('', LPAREN), (CHR '')'', RPAREN), (CHR '';'', SEMI),
     (CHR '','', COMMA), (CHR ''.'', DOT)]"

lemma skip_whitespace_ltext [simp]: "ltext (skip_whitespace lx) = ltext lx"
proof (induction lx rule: skip_whitespace.induct)
  case (1 lx)
  show ?case
  proof (cases "current_char lx")
    case None
    then show ?thesis by (subst skip_whitespace.simps) simp
  next
    case (Some c)
    show ?thesis
    proof (cases "isspace c")
      case True
      have "ltext (skip_whitespace (advance lx)) = ltext (advance lx)"
        using "1.IH"[OF Some True] .
      then show ?thesis using Some True by (subst skip_whitespace.simps) simp
    next
      case False
      then show ?thesis using Some by (subst skip_whitespace.simps) simp
    qed
  qed
qed

lemma skip_whitespace_pos: "pos lx \<le> pos (skip_whitespace lx)"
proof (induction lx rule: skip_whitespace.induct)
  case (1 lx)
  show ?case
  proof (cases "current_char lx")
    case None
    then show ?thesis by (subst skip_whitespace.simps) simp
  next
    case (Some c)
    show ?thesis
    proof (cases "isspace c")
      case True
      have "pos (advance lx) \<le> pos (skip_whitespace (advance lx))"
        using "1.IH"[OF Some True] .
      then show ?thesis using Some True by (subst skip_whitespace.simps) simp
    next
      case False
      then show ?thesis using Some by (subst skip_whitespace.simps) simp
    qed
  qed
qed

lemma skip_whitespace_progress:
  "current_char lx = Some c \<Longrightarrow> isspace c \<Longrightarrow> pos lx < pos (skip_whitespace lx)"
  using skip_whitespace_pos[of "advance lx"]
  by (subst skip_whitespace.simps) simp

lemma skip_comment_while_ltext [simp]: "ltext (skip_comment_while lx) = ltext lx"
proof (induction lx rule: skip_comment_while.induct)
  case (1 lx)
  show ?case
  proof (cases "current_char lx")
    case None
    then show ?thesis by (subst skip_comment_while.simps) simp
  next
    case (Some c)
    show ?thesis
    proof (cases "c \<noteq> CHR 0x0A")
      case True
      have "ltext (skip_comment_while (advance lx)) = ltext (advance lx)"
        using "1.IH"[OF Some True] .
      then show ?thesis using Some True by (subst skip_comment_while.simps) simp
    next
      case False
      then show ?thesis using Some by (subst skip_comment_while.simps) simp
    qed
  qed
qed

lemma skip_comment_while_pos: "pos lx \<le> pos (skip_comment_while lx)"
proof (induction lx rule: skip_comment_while.induct)
  case (1 lx)
  show ?case
  proof (cases "current_char lx")
    case None
    then show ?thesis by (subst skip_comment_while.simps) simp
  next
    case (Some c)
    show ?thesis
    proof (cases "c \<noteq> CHR 0x0A")
      case True
      have "pos (advance lx) \<le> pos (skip_comment_while (advance lx))"
        using "1.IH"[OF Some True] .
      then show ?thesis using Some True by (subst skip_comment_while.simps) simp
    next
      case False
      then show ?thesis using Some by (subst skip_comment_while.simps) simp
    qed
  qed
qed

lemma skip_comment_ltext [simp]: "ltext (skip_comment lx) = ltext lx"
  by (simp add: skip_comment_def)

lemma skip_comment_progress: "pos lx < pos (skip_comment lx)"
  using skip_comment_while_pos[of lx] by (simp add: skip_comment_def)

function get_next_token :: "(string \<Rightarrow> 'f) \<Rightarrow> lexer \<Rightarrow> 'f error + ('f token \<times> lexer)" where
  "get_next_token F lx =
     (case current_char lx of
        None \<Rightarrow> Inr (Token EOF NoneV (line lx) (column lx), lx)
      | Some c \<Rightarrow>
          if isspace c then get_next_token F (skip_whitespace lx)
          else if c = CHR ''{'' then get_next_token F (skip_comment lx)
          else if isalpha c \<or> c = CHR ''_'' then Inr (lex_identifier lx)
          else if isdigit c then number F lx
          else if c = CHR '':'' then
            (let lx1 = advance lx in
             if current_char lx1 = Some CHR ''=''
             then (let lx2 = advance lx1 in Inr (Token ASSIGN (StrV '':='') (line lx2) (column lx2), lx2))
             else Inr (Token COLON (StrV '':'') (line lx1) (column lx1), lx1))
          else if c = CHR ''<'' then
            (let lx1 = advance lx in
             if current_char lx1 = Some CHR ''=''
             then (let lx2 = advance lx1 in Inr (Token LTE (StrV ''<='') (line lx2) (column lx2), lx2))
             else if current_char lx1 = Some CHR ''>''
             then (let lx2 = advance lx1 in Inr (Token NEQ (StrV ''<>'') (line lx2) (column lx2), lx2))
             else Inr (Token LT (StrV ''<'') (line lx1) (column lx1), lx1))
          else if c = CHR ''>'' then
            (let lx1 = advance lx in
             if current_char lx1 = Some CHR ''=''
             then (let lx2 = advance lx1 in Inr (Token GTE (StrV ''>='') (line lx2) (column lx2), lx2))
             else Inr (Token GT (StrV ''>'') (line lx1) (column lx1), lx1))
          else (case map_of token_types c of
                  Some ty \<Rightarrow> (let lx1 = advance lx in Inr (Token ty (StrV [c]) (line lx1) (column lx1), lx1))
                | None \<Rightarrow> Inl (LexicalError (line lx) (column lx) c)))"
  by pat_completeness auto
termination
proof (relation "measure (\<lambda>(F, lx). length (ltext lx) - pos lx)", goal_cases)
  case 1
  show ?case by simp
next
  case (2 F lx c)
  then show ?case
    using skip_whitespace_progress[of lx c] current_char_Some_pos[of lx c]
    by (simp add: diff_less_mono2)
next
  case (3 F lx c)
  then show ?case
    using skip_comment_progress[of lx] current_char_Some_pos[of lx c]
    by (simp add: diff_less_mono2)
qed

declare get_next_token.simps [simp del]

subsection \<open>Numerals\<close>

lemma current_char_drop:
  "current_char lx = (case drop (pos lx) (ltext lx) of [] \<Rightarrow> None | c # cs \<Rightarrow> Some c)"
  by (auto simp add: current_char_def hd_drop_conv_nth split: list.splits
      dest: arg_cong[where f = hd])

lemma advance_plain:
  "current_char lx \<noteq> Some (CHR 0x0A) \<Longrightarrow>
     advance lx = lx\<lparr>pos := Suc (pos lx), column := Suc (column lx)\<rparr>"
  by (cases lx) (simp add: advance_def Let_def)

lemma isdigit_not_newline: "isdigit c \<Longrightarrow> c \<noteq> CHR 0x0A"
  by (auto simp add: isdigit_def isdecimal_def ord_def)

lemma isdecimal_isdigit: "isdecimal c \<Longrightarrow> isdigit c"
  by (simp add: isdigit_def)

lemma list_all_isdecimal_isdigit: "list_all isdecimal ds \<Longrightarrow> list_all isdigit ds"
  by (induction ds) (simp_all add: isdecimal_isdigit)

lemma dot_not_decimal: "\<not> isdecimal CHR ''.''"
  by (simp add: isdecimal_def ord_def)

lemma filter_dot_decimal: "list_all isdecimal ds \<Longrightarrow> filter (\<lambda>c. c = CHR ''.'') ds = []"
  by (induction ds) (auto simp add: dot_not_decimal)

lemma number_while_digits:
  assumes "drop (pos lx) (ltext lx) = ds @ rest" "list_all isdigit ds"
      "rest = [] \<or> \<not> isdigit (hd rest)"
  shows "number_while acc lx =
           (acc @ ds, lx\<lparr>pos := pos lx + length ds, column := column lx + length ds\<rparr>)"
  using assms
proof (induction ds arbitrary: acc lx)
  case Nil
  then have "current_char lx = None \<or> (\<exists>c. current_char lx = Some c \<and> \<not> isdigit c)"
    by (cases rest) (auto simp add: current_char_drop)
  then show ?case
    by (subst number_while.simps) (cases lx, auto)
next
  case (Cons d ds)
  have cur: "current_char lx = Some d" using Cons.prems(1) by (simp add: current_char_drop)
  have dig: "isdigit d" using Cons.prems(2) by simp
  have adv: "advance lx = lx\<lparr>pos := Suc (pos lx), column := Suc (column lx)\<rparr>"
    using cur dig isdigit_not_newline[of d] by (intro advance_plain) auto
  have "drop (pos (advance lx)) (ltext (advance lx)) = ds @ rest"
    using Cons.prems(1) by (simp add: drop_Suc tl_drop[symmetric] del: tl_drop)
  then have "number_while (acc @ [d]) (advance lx) =
      ((acc @ [d]) @ ds, (advance lx)\<lparr>pos := pos (advance lx) + length ds,
           column := column (advance lx) + length ds\<rparr>)"
    using Cons.prems by (intro Cons.IH) auto
  then show ?case
    using cur dig by (subst number_while.simps) (simp add: adv)
qed


lemma digits_list_ex: "ds \<noteq> [] \<Longrightarrow> list_all isdecimal ds \<Longrightarrow> list_ex isdecimal (ds @ xs)"
  by (cases ds) auto

lemma dot_not_digit: "\<not> isdigit CHR ''.''"
  by (simp add: isdigit_def isdecimal_def ord_def)

lemma number_integer:
  assumes "drop (pos lx) (ltext lx) = ds @ rest" "ds \<noteq> []" "list_all isdecimal ds"
      "rest = [] \<or> (\<not> isdigit (hd rest) \<and> hd rest \<noteq> CHR ''.'')"
      "length ds \<le> 4300"
  shows "number F lx =
     Inr (Token NUMBER (IntV (int_of_digits ds)) (line lx) (column lx + length ds),
          lx\<lparr>pos := pos lx + length ds, column := column lx + length ds\<rparr>)"
proof -
  have W: "number_while [] lx =
      ([] @ ds, lx\<lparr>pos := pos lx + length ds, column := column lx + length ds\<rparr>)"
    using assms list_all_isdecimal_isdigit[of ds]
    by (intro number_while_digits[where rest = rest]) auto
  have "drop (pos lx + length ds) (ltext lx) = rest"
    using assms(1) by (metis add.commute append_eq_conv_conj drop_drop)
  then have "current_char (lx\<lparr>pos := pos lx + length ds, column := column lx + length ds\<rparr>)
      \<noteq> Some CHR ''.''"
    using assms(4) by (cases rest) (auto simp add: current_char_drop)
  then show ?thesis
    using assms(2,3,5) by (simp add: number_def W py_int_def int_max_str_digits_def)
qed

lemma number_real:
  assumes "drop (pos lx) (ltext lx) = ds @ ''.'' @ ds2 @ rest" "ds \<noteq> []" "list_all isdecimal ds"
      "list_all isdecimal ds2" "rest = [] \<or> \<not> isdigit (hd rest)"
  shows "number F lx =
     Inr (Token NUMBER (FloatV (F (ds @ ''.'' @ ds2))) (line lx)
            (column lx + length ds + 1 + length ds2),
          lx\<lparr>pos := pos lx + length ds + 1 + length ds2,
             column := column lx + length ds + 1 + length ds2\<rparr>)"
proof -
  let ?lx1 = "lx\<lparr>pos := pos lx + length ds, column := column lx + length ds\<rparr>"
  have W: "number_while [] lx = ([] @ ds, ?lx1)"
    using assms(1,3) list_all_isdecimal_isdigit[of ds]
    by (intro number_while_digits[where rest = "''.'' @ ds2 @ rest"])
      (auto simp add: dot_not_digit)
  have D: "drop (pos lx + length ds) (ltext lx) = ''.'' @ ds2 @ rest"
    using assms(1) by (metis add.commute append_eq_conv_conj drop_drop)
  then have cur: "current_char ?lx1 = Some CHR ''.''"
    by (simp add: current_char_drop)
  have adv: "advance ?lx1 = ?lx1\<lparr>pos := Suc (pos ?lx1), column := Suc (column ?lx1)\<rparr>"
    using cur by (intro advance_plain) simp
  let ?lx2 = "advance ?lx1"
  have D2: "drop (pos ?lx2) (ltext ?lx2) = ds2 @ rest"
    using D by (simp add: adv) (metis Cons_eq_appendI append_Nil drop_Suc list.sel(3) tl_drop add_Suc_right)
  have W2: "number_while (ds @ ''.'') ?lx2 =
      ((ds @ ''.'') @ ds2, ?lx2\<lparr>pos := pos ?lx2 + length ds2, column := column ?lx2 + length ds2\<rparr>)"
    using D2 assms(4,5) list_all_isdecimal_isdigit[of ds2]
    by (intro number_while_digits[where rest = rest]) auto
  have fl: "list_ex isdecimal ((ds @ ''.'') @ ds2)"
    using assms(2,3) digits_list_ex[of ds "''.'' @ ds2"] by simp
  have fa: "list_all (\<lambda>c. isdecimal c \<or> c = CHR ''.'') ((ds @ ''.'') @ ds2)"
    using assms(3,4) by (auto simp add: list_all_iff)
  have fd: "length (filter (\<lambda>c. c = CHR ''.'') ((ds @ ''.'') @ ds2)) \<le> 1"
    using assms(3,4) by (simp add: filter_dot_decimal)
  show ?thesis
    using cur fl fa fd W2 by (simp add: number_def W py_float_def) (simp add: adv)
qed

lemma isdigit_ord: "isdigit c \<Longrightarrow> (48 \<le> ord c \<and> ord c \<le> 57) \<or> ord c = 178 \<or> ord c = 179 \<or> ord c = 185"
  by (simp add: isdigit_def isdecimal_def)

lemma isdigit_not_isspace:
  assumes "isdigit c" shows "\<not> isspace c"
  using isdigit_ord[OF assms] by (elim disjE conjE; simp add: isspace_def)

lemma isdigit_not_isalpha:
  assumes "isdigit c" shows "\<not> isalpha c"
  using isdigit_ord[OF assms] by (elim disjE conjE; simp add: isalpha_def)

lemma isdigit_not_brace:
  assumes "isdigit c" shows "c \<noteq> CHR ''{'' \<and> c \<noteq> CHR ''_''"
  using isdigit_ord[OF assms] by (elim disjE conjE; auto simp add: ord_def)

lemma get_next_token_digit:
  "current_char lx = Some c \<Longrightarrow> isdigit c \<Longrightarrow> get_next_token F lx = number F lx"
  using isdigit_not_isspace[of c] isdigit_not_isalpha[of c] isdigit_not_brace[of c]
  by (subst get_next_token.simps) simp

text \<open>
  Claim C9: when a run of decimal digits is followed by a dot and the character after the
  dot, if any, is not a digit character, the scanner takes the dot into the numeral: the
  token is a NUMBER carrying the float of the digits and the dot, and the input left after
  the token starts behind the dot.
\<close>

theorem C9_trailing_dot_absorbed:
  assumes "drop (pos lx) (ltext lx) = ds @ ''.'' @ rest" "ds \<noteq> []" "list_all isdecimal ds"
      "rest = [] \<or> \<not> isdigit (hd rest)"
  shows "get_next_token F lx =
           Inr (Token NUMBER (FloatV (F (ds @ ''.''))) (line lx) (column lx + length ds + 1),
                lx\<lparr>pos := pos lx + length ds + 1, column := column lx + length ds + 1\<rparr>)
         \<and> drop (pos lx + length ds + 1) (ltext lx) = rest"
proof
  have cur: "current_char lx = Some (hd ds)" "isdigit (hd ds)"
    using assms(1,2,3) by (cases ds; simp add: current_char_drop isdecimal_isdigit)+
  have "number F lx =
     Inr (Token NUMBER (FloatV (F (ds @ ''.'' @ []))) (line lx)
            (column lx + length ds + 1 + length ([] :: string)),
          lx\<lparr>pos := pos lx + length ds + 1 + length ([] :: string),
             column := column lx + length ds + 1 + length ([] :: string)\<rparr>)"
    using assms by (intro number_real[where rest = rest]) auto
  then show "get_next_token F lx =
           Inr (Token NUMBER (FloatV (F (ds @ ''.''))) (line lx) (column lx + length ds + 1),
                lx\<lparr>pos := pos lx + length ds + 1, column := column lx + length ds + 1\<rparr>)"
    using get_next_token_digit[OF cur, of F] by simp
  show "drop (pos lx + length ds + 1) (ltext lx) = rest"
    using assms(1)
    by (metis add.commute append_eq_conv_conj drop_drop length_append list.size(3,4) One_nat_def
        add.right_neutral add_Suc_right)
qed

text \<open>The numeral 7 right before a final dot: the dot is consumed, nothing is left.\<close>

theorem C9_trailing_dot_absorbed_witness:
  "drop (pos \<lparr>ltext = ''x := 7.'', pos = 5, line = 1, column = 6\<rparr>)
        (ltext \<lparr>ltext = ''x := 7.'', pos = 5, line = 1, column = 6\<rparr>) = ''7'' @ ''.'' @ []
   \<and> get_next_token (\<lambda>s. s) \<lparr>ltext = ''x := 7.'', pos = 5, line = 1, column = 6\<rparr>
       = Inr (Token NUMBER (FloatV ''7.'') 1 8, \<lparr>ltext = ''x := 7.'', pos = 7, line = 1, column = 8\<rparr>)
   \<and> drop 7 ''x := 7.'' = []"
  using C9_trailing_dot_absorbed[of "\<lparr>ltext = ''x := 7.'', pos = 5, line = 1, column = 6\<rparr>"
      "''7''" "[]" "\<lambda>s. s"]
  by (simp add: isdigit_def isdecimal_def ord_def)

text \<open>
  Claim C8: a run of decimal digits (no longer than the conversion limit of 4300 digits)
  with neither a digit character nor a dot after it scans to a NUMBER token with the
  integer value of the digits, which the analyzer types integer; a run of decimal digits,
  one dot and at least one further decimal digit, with no digit character after them, scan
  to a NUMBER token with a float value, which the analyzer types real.
\<close>

theorem C8_numeral_types:
  "(drop (pos lx) (ltext lx) = ds @ rest \<and> ds \<noteq> [] \<and> list_all isdecimal ds
      \<and> length ds \<le> 4300
      \<and> (rest = [] \<or> (\<not> isdigit (hd rest) \<and> hd rest \<noteq> CHR ''.''))
    \<longrightarrow> get_next_token F lx =
          Inr (Token NUMBER (IntV (int_of_digits ds)) (line lx) (column lx + length ds),
               lx\<lparr>pos := pos lx + length ds, column := column lx + length ds\<rparr>)
        \<and> (analyze st (NumNode (IntV (int_of_digits ds))) :: 'f error + string) = Inr ''integer'')
   \<and> (drop (pos lx) (ltext lx) = ds @ ''.'' @ ds2 @ rest \<and> ds \<noteq> [] \<and> ds2 \<noteq> []
      \<and> list_all isdecimal ds \<and> list_all isdecimal ds2 \<and> (rest = [] \<or> \<not> isdigit (hd rest))
    \<longrightarrow> get_next_token F lx =
          Inr (Token NUMBER (FloatV (F (ds @ ''.'' @ ds2))) (line lx)
                 (column lx + length ds + 1 + length ds2),
               lx\<lparr>pos := pos lx + length ds + 1 + length ds2,
                  column := column lx + length ds + 1 + length ds2\<rparr>)
        \<and> (analyze st (NumNode (FloatV (F (ds @ ''.'' @ ds2)))) :: 'f error + string) = Inr ''real'')"
proof (intro conjI impI)
  assume A: "drop (pos lx) (ltext lx) = ds @ rest \<and> ds \<noteq> [] \<and> list_all isdecimal ds
      \<and> length ds \<le> 4300
      \<and> (rest = [] \<or> (\<not> isdigit (hd rest) \<and> hd rest \<noteq> CHR ''.''))"
  then have cur: "current_char lx = Some (hd ds)" "isdigit (hd ds)"
    by (cases ds; simp add: current_char_drop isdecimal_isdigit)+
  show "get_next_token F lx =
          Inr (Token NUMBER (IntV (int_of_digits ds)) (line lx) (column lx + length ds),
               lx\<lparr>pos := pos lx + length ds, column := column lx + length ds\<rparr>)"
    using A get_next_token_digit[OF cur, of F] number_integer[of lx ds rest F] by simp
next
  assume A: "drop (pos lx) (ltext lx) = ds @ ''.'' @ ds2 @ rest \<and> ds \<noteq> [] \<and> ds2 \<noteq> []
      \<and> list_all isdecimal ds \<and> list_all isdecimal ds2 \<and> (rest = [] \<or> \<not> isdigit (hd rest))"
  then have cur: "current_char lx = Some (hd ds)" "isdigit (hd ds)"
    by (cases ds; simp add: current_char_drop isdecimal_isdigit)+
  show "get_next_token F lx =
          Inr (Token NUMBER (FloatV (F (ds @ ''.'' @ ds2))) (line lx)
                 (column lx + length ds + 1 + length ds2),
               lx\<lparr>pos := pos lx + length ds + 1 + length ds2,
                  column := column lx + length ds + 1 + length ds2\<rparr>)"
    using A get_next_token_digit[OF cur, of F] number_real[of lx ds ds2 rest F] by simp
qed simp_all

text \<open>The numerals 123 and 45.67.\<close>

theorem C8_numeral_types_witness:
  "(get_next_token (\<lambda>s. s) (Lexer_init ''123 '') =
       Inr (Token NUMBER (IntV 123) 1 4, \<lparr>ltext = ''123 '', pos = 3, line = 1, column = 4\<rparr>)
    \<and> (analyze Map.empty (NumNode (IntV 123)) :: string error + string) = Inr ''integer'')
   \<and> (get_next_token (\<lambda>s. s) (Lexer_init ''45.67'') =
       Inr (Token NUMBER (FloatV ''45.67'') 1 6, \<lparr>ltext = ''45.67'', pos = 5, line = 1, column = 6\<rparr>)
    \<and> (analyze Map.empty (NumNode (FloatV ''45.67'')) :: string error + string) = Inr ''real'')"
  using C8_numeral_types[of "Lexer_init ''123 ''" "''123''" "'' ''" "\<lambda>s. s" Map.empty "[]"]
        C8_numeral_types[of "Lexer_init ''45.67''" "''45''" "[]" "\<lambda>s. s" Map.empty "''67''"]
  by (simp add: Lexer_init_def isdigit_def isdecimal_def ord_def int_of_digits_def Token_def)

end
